theory Spec2Isabelle
  imports Complex_Main "HOL-Library.Word"
begin

unbundle bit_operations_syntax

section \<open>Go values used by the decoder\<close>

text \<open>
  A Go \<open>byte\<close> is an 8-bit word and an \<open>int64\<close> a 64-bit word. Go's \<open>int\<close> is taken
  to be 64 bits wide (the targets of the Bluetooth library are 64-bit), so the conversions
  \<open>int(x)\<close> of an \<open>int64\<close> and of a \<open>uint32\<close> keep the value: a field of type
  \<open>int\<close> holds the mathematical integer \<open>sint x\<close>, respectively \<open>uint x\<close>.

  A \<open>float64\<close> field is represented by the exact rational value of the expression that
  computes it. Every integer converted to \<open>float64\<close> below is smaller than \<open>2 ^ 53\<close>, so
  the conversion is exact; the rounding of a quotient or product to the nearest
  \<open>float64\<close> keeps its sign and keeps it from becoming zero at the magnitudes that occur.
  The statements below therefore speak about signs, about being zero and about the
  quotient itself, never about the last bits of a rounded result.
\<close>

type_synonym byte = "8 word"
type_synonym int64 = "64 word"
type_synonym uint32 = "32 word"
type_synonym float64 = rat

text \<open>
  The two ways the decoder can stop without returning: a run-time panic (a slice
  expression or an index out of range) and \<open>log.Fatalf\<close>.
\<close>

datatype error = Panic | Fatal

definition bind_result :: "error + 'a \<Rightarrow> ('a \<Rightarrow> error + 'b) \<Rightarrow> error + 'b" where
  "bind_result m f = (case m of Inl e \<Rightarrow> Inl e | Inr x \<Rightarrow> f x)"

text \<open>
  A slice \<open>[]byte\<close> has a length and a capacity. \<open>elems\<close> are the \<open>len\<close> bytes an index
  can reach; \<open>spare\<close> are the bytes of the backing array between the length and the
  capacity, which only a slice expression can reach. In \<open>s[lo:hi]\<close> on a slice the upper
  bound is checked against the capacity, in \<open>s[lo:]\<close> the upper bound is the length, and
  \<open>s[i]\<close> is checked against the length (Go language specification, "Slice expressions"
  and "Index expressions").
\<close>

record slice =
  elems :: "byte list"
  spare :: "byte list"

definition len :: "slice \<Rightarrow> nat" where
  "len s = length (elems s)"

definition cap :: "slice \<Rightarrow> nat" where
  "cap s = length (elems s) + length (spare s)"

definition slice_expr :: "slice \<Rightarrow> nat \<Rightarrow> nat \<Rightarrow> error + slice" where
  "slice_expr s lo hi =
     (if lo \<le> hi \<and> hi \<le> cap s
      then Inr \<lparr>elems = take (hi - lo) (drop lo (elems s @ spare s)),
                spare = drop hi (elems s @ spare s)\<rparr>
      else Inl Panic)"

definition slice_from :: "slice \<Rightarrow> nat \<Rightarrow> error + slice" where
  "slice_from s lo =
     (if lo \<le> len s then Inr \<lparr>elems = drop lo (elems s), spare = spare s\<rparr>
      else Inl Panic)"

definition index :: "slice \<Rightarrow> nat \<Rightarrow> error + byte" where
  "index s i = (if i < len s then Inr (elems s ! i) else Inl Panic)"

definition string_index :: "string \<Rightarrow> nat \<Rightarrow> error + char" where
  "string_index s i = (if i < length s then Inr (s ! i) else Inl Panic)"

text \<open>A buffer whose capacity equals its length, such as a freshly allocated one.\<close>

definition buffer :: "byte list \<Rightarrow> slice" where
  "buffer bs = \<lparr>elems = bs, spare = []\<rparr>"

subsection \<open>Library functions the decoder calls\<close>

text \<open>\<open>hex.EncodeToString\<close>: two lower-case hexadecimal digits per byte.\<close>

definition hexdigit :: "nat \<Rightarrow> char" where
  "hexdigit n = ''0123456789abcdef'' ! n"

definition hexEncodeToString :: "byte list \<Rightarrow> string" where
  "hexEncodeToString bs =
     concat (map (\<lambda>b. [hexdigit (unat (drop_bit 4 b)), hexdigit (unat (b AND 15))]) bs)"

text \<open>
  \<open>binary.BigEndian.Uint32\<close>: reads \<open>b[3]\<close> first as a bounds check, then combines
  the first four bytes, the first one most significant.
\<close>

definition bigEndianUint32 :: "byte list \<Rightarrow> error + uint32" where
  "bigEndianUint32 b =
     (if length b < 4 then Inl Panic
      else Inr (ucast (b ! 3) OR push_bit 8 (ucast (b ! 2)) OR
                push_bit 16 (ucast (b ! 1)) OR push_bit 24 (ucast (b ! 0))))"

text \<open>
  \<open>math.Round\<close>: the nearest integer, halves away from zero (on the exact value).
\<close>

definition mathRound :: "float64 \<Rightarrow> float64" where
  "mathRound x = (if 0 \<le> x then of_int \<lfloor>x + 1 / 2\<rfloor> else of_int \<lceil>x - 1 / 2\<rceil>)"

section \<open>The frame decoder\<close>

record BatteryInfo =
  PackVoltage :: int
  Voltage :: int
  BatteryPack :: "int \<rightharpoonup> float64"
  Current :: float64
  Watt :: float64
  RemainAh :: float64
  FactoryAh :: float64
  CellTemperature :: int
  MosfetTemperature :: int
  Heat :: string
  DischargeSwitchState :: int
  ProtectState :: string
  FailureState :: slice
  EquilibriumState :: int
  BatteryState :: int
  SOC :: int
  SOH :: int
  DischargesCount :: int
  DischargesAHCount :: int
  BatteryStatus :: string
  BalanceStatus :: string
  CellStatus :: string
  HeatStatus :: string

text \<open>
  \<open>reverseBytes\<close>: a fresh slice of the same length, filled from the back while the
  input is read from the front.
\<close>

definition reverseBytes :: "byte list \<Rightarrow> byte list" where
  "reverseBytes data =
     foldl (\<lambda>reversed i. reversed[length data - i - 1 := data ! i])
       (replicate (length data) 0) [0..<length data]"

definition binaryToIntBigEndian :: "byte list \<Rightarrow> error + int" where
  "binaryToIntBigEndian data =
     (if length data \<noteq> 4 then Inl Fatal
      else bind_result (bigEndianUint32 (reverseBytes data)) (\<lambda>u. Inr (uint u)))"

text \<open>\<open>binaryToInt\<close>: shift the accumulator left by 8 and or the next byte in.\<close>

definition binaryToInt :: "byte list \<Rightarrow> int64" where
  "binaryToInt data = foldl (\<lambda>result b. push_bit 8 result OR ucast b) 0 data"

text \<open>
  The loop over the cell block: \<open>for i := 0; i < len(batPack); i += 2\<close>. Each pair is
  read low byte first and handed to \<open>binaryToInt\<close> high byte first; a pair that reads as
  zero is skipped, any other is stored under \<open>i/2 + 1\<close>.
\<close>

function cellLoop :: "slice \<Rightarrow> nat \<Rightarrow> (int \<rightharpoonup> float64) \<Rightarrow> error + (int \<rightharpoonup> float64)" where
  "cellLoop batPack i pack =
     (if i < len batPack then
        (case index batPack (i + 1) of
           Inl e \<Rightarrow> Inl e
         | Inr hi \<Rightarrow>
            (case index batPack i of
               Inl e \<Rightarrow> Inl e
             | Inr lo \<Rightarrow>
                (let cellVoltage = sint (binaryToInt [hi, lo]) in
                 if cellVoltage = 0 then cellLoop batPack (i + 2) pack
                 else cellLoop batPack (i + 2)
                        (pack(int i div 2 + 1 \<mapsto> of_int cellVoltage / 1000)))))
      else Inr pack)"
  by pat_completeness auto
termination
  by (relation "measure (\<lambda>(batPack, i, pack). len batPack - i)") auto

declare cellLoop.simps [simp del]

definition getBatteryStatus :: "BatteryInfo \<Rightarrow> string" where
  "getBatteryStatus battery =
     (let status =
        (if Current battery = 0 then ''Standby''
         else if Current battery > 0 then ''Charging''
         else if Current battery < 0 then ''Discharging''
         else '''')
      in if SOC battery \<ge> 100 \<or> BatteryState battery = 4 then ''Full Charge'' else status)"

text \<open>The record \<open>&BatteryInfo{BatteryPack: make(map[int]float64)}\<close>: every other field zero.\<close>

definition newBatteryInfo :: BatteryInfo where
  "newBatteryInfo =
     \<lparr>PackVoltage = 0, Voltage = 0, BatteryPack = Map.empty, Current = 0, Watt = 0,
      RemainAh = 0, FactoryAh = 0, CellTemperature = 0, MosfetTemperature = 0, Heat = '''',
      DischargeSwitchState = 0, ProtectState = '''', FailureState = \<lparr>elems = [], spare = []\<rparr>,
      EquilibriumState = 0, BatteryState = 0, SOC = 0, SOH = 0, DischargesCount = 0,
      DischargesAHCount = 0, BatteryStatus = '''', BalanceStatus = '''', CellStatus = '''',
      HeatStatus = ''''\<rparr>"

text \<open>
  \<open>parseBatteryInfo\<close>, statement by statement: each slice expression and index is
  checked where the source evaluates it, and the record is threaded through
  as the source mutates it. The argument of the first \<open>Println\<close> is sliced before
  anything else is read.
\<close>

definition parseBatteryInfo :: "slice \<Rightarrow> error + BatteryInfo" where
  "parseBatteryInfo data =
     (let battery = newBatteryInfo in
      bind_result (slice_expr data 12 16) (\<lambda>rawVoltage.
      bind_result (slice_expr data 8 12) (\<lambda>d.
      bind_result (binaryToIntBigEndian (elems d)) (\<lambda>v.
      let battery = battery\<lparr>PackVoltage := v\<rparr> in
      bind_result (slice_expr data 12 16) (\<lambda>d.
      bind_result (binaryToIntBigEndian (elems d)) (\<lambda>v.
      let battery = battery\<lparr>Voltage := v\<rparr> in
      bind_result (slice_expr data 16 48) (\<lambda>batPack.
      bind_result (cellLoop batPack 0 (BatteryPack battery)) (\<lambda>pack.
      let battery = battery\<lparr>BatteryPack := pack\<rparr> in
      bind_result (slice_expr data 48 52) (\<lambda>d.
      let current = sint (binaryToInt (elems d));
          battery = battery\<lparr>Current := of_int current / 1000\<rparr>;
          battery = battery\<lparr>Watt :=
            mathRound (of_int (Voltage battery) * Current battery / 10000 * 100) / 100\<rparr> in
      bind_result (slice_expr data 62 64) (\<lambda>d.
      let battery = battery\<lparr>RemainAh := of_int (sint (binaryToInt (elems d))) / 100\<rparr> in
      bind_result (slice_expr data 64 66) (\<lambda>d.
      let battery = battery\<lparr>FactoryAh := of_int (sint (binaryToInt (elems d))) / 100\<rparr> in
      bind_result (slice_expr data 52 54) (\<lambda>d.
      let battery = battery\<lparr>CellTemperature := sint (binaryToInt (elems d))\<rparr> in
      bind_result (slice_expr data 54 56) (\<lambda>d.
      let battery = battery\<lparr>MosfetTemperature := sint (binaryToInt (elems d))\<rparr> in
      bind_result (slice_expr data 68 72) (\<lambda>d.
      let battery = battery\<lparr>Heat := hexEncodeToString (elems d)\<rparr> in
      bind_result (index data 68) (\<lambda>b68.
      let battery = (if drop_bit 7 b68 \<ge> 8 then battery\<lparr>DischargeSwitchState := 0\<rparr>
                     else battery\<lparr>DischargeSwitchState := 1\<rparr>) in
      bind_result (slice_expr data 76 80) (\<lambda>d.
      let battery = battery\<lparr>ProtectState := hexEncodeToString (elems d)\<rparr> in
      bind_result (slice_expr data 80 84) (\<lambda>d.
      let battery = battery\<lparr>FailureState := d\<rparr> in
      bind_result (slice_expr data 84 88) (\<lambda>d.
      let battery = battery\<lparr>EquilibriumState := sint (binaryToInt (elems d))\<rparr> in
      bind_result (slice_expr data 88 90) (\<lambda>d.
      let battery = battery\<lparr>BatteryState := sint (binaryToInt (elems d))\<rparr> in
      bind_result (slice_expr data 90 92) (\<lambda>d.
      let battery = battery\<lparr>SOC := sint (binaryToInt (elems d))\<rparr> in
      bind_result (slice_expr data 92 96) (\<lambda>d.
      let battery = battery\<lparr>SOH := sint (binaryToInt (elems d))\<rparr> in
      bind_result (slice_expr data 96 100) (\<lambda>d.
      let battery = battery\<lparr>DischargesCount := sint (binaryToInt (elems d))\<rparr> in
      bind_result (slice_expr data 100 104) (\<lambda>d.
      let battery = battery\<lparr>DischargesAHCount := sint (binaryToInt (elems d))\<rparr>;
          battery = battery\<lparr>BatteryStatus := getBatteryStatus battery\<rparr>;
          battery = (if EquilibriumState battery > 0
                     then battery\<lparr>BalanceStatus :=
                            ''Battery cells are being balanced for better performance.''\<rparr>
                     else battery\<lparr>BalanceStatus := ''All cells are well-balanced.''\<rparr>) in
      bind_result (index (FailureState battery) 0) (\<lambda>f0.
      bind_result (if f0 > 0 then Inr True
                   else bind_result (index (FailureState battery) 1) (\<lambda>f1. Inr (f1 > 0)))
        (\<lambda>fault.
      let battery = (if fault
                     then battery\<lparr>CellStatus :=
                            ''Fault alert! There may be a problem with cell.''\<rparr>
                     else battery\<lparr>CellStatus :=
                            ''Battery is in optimal working condition.''\<rparr>) in
      bind_result (string_index (Heat battery) 7) (\<lambda>h7.
      let battery = (if h7 = CHR ''2''
                     then battery\<lparr>HeatStatus := ''Self-heating is on''\<rparr>
                     else battery\<lparr>HeatStatus := ''Self-heating is off''\<rparr>) in
      Inr battery))))))))))))))))))))))))))"

text \<open>
  \<open>fmt.Sprintf("%d", n)\<close>: the decimal digits of \<open>n\<close>, after a minus sign when it is
  negative.
\<close>

function decimal :: "nat \<Rightarrow> string" where
  "decimal n =
     (if n < 10 then [char_of (48 + n)] else decimal (n div 10) @ [char_of (48 + n mod 10)])"
  by pat_completeness auto
termination
  by (relation "measure id") auto

declare decimal.simps [simp del]

definition sprintd :: "int \<Rightarrow> string" where
  "sprintd n = (if n < 0 then CHR ''-'' # decimal (nat (- n)) else decimal (nat n))"

text \<open>
  The loop of \<open>parseVersion\<close>: \<open>for i := 0; i < len(start); i += 2\<close>, appending
  \<open>string(ver)\<close> when \<open>ver\<close> is between 32 and 126. For such a value \<open>string(ver)\<close>
  is the one character with that code.
\<close>

function hardwareLoop :: "slice \<Rightarrow> nat \<Rightarrow> string \<Rightarrow> error + string" where
  "hardwareLoop start i hardwareVersion =
     (if i < len start then
        (case index start i of
           Inl e \<Rightarrow> Inl e
         | Inr ver \<Rightarrow>
            hardwareLoop start (i + 2)
              (if ver \<ge> 32 \<and> ver \<le> 126 then hardwareVersion @ [char_of (unat ver)]
               else hardwareVersion))
      else Inr hardwareVersion)"
  by pat_completeness auto
termination
  by (relation "measure (\<lambda>(start, i, hardwareVersion). len start - i)") auto

declare hardwareLoop.simps [simp del]

definition parseVersion :: "slice \<Rightarrow> error + string \<times> string \<times> string" where
  "parseVersion data =
     bind_result (slice_from data 8) (\<lambda>start.
     bind_result (slice_expr start 0 2) (\<lambda>major.
     bind_result (slice_expr start 2 4) (\<lambda>minor.
     bind_result (slice_expr start 4 6) (\<lambda>patch.
     let firmwareVersion =
           sprintd (sint (binaryToInt (elems major))) @ ''.'' @
           sprintd (sint (binaryToInt (elems minor))) @ ''.'' @
           sprintd (sint (binaryToInt (elems patch))) in
     bind_result (slice_expr start 6 8) (\<lambda>year.
     bind_result (index start 8) (\<lambda>month.
     bind_result (index start 9) (\<lambda>day.
     let manufactureDate =
           sprintd (sint (binaryToInt (elems year))) @ ''-'' @
           sprintd (uint month) @ ''-'' @ sprintd (uint day) in
     bind_result (hardwareLoop start 0 '''') (\<lambda>hardwareVersion.
     Inr (firmwareVersion, manufactureDate, hardwareVersion)))))))))"

section \<open>The poll sequencer\<close>

definition pqCommands :: "(string \<times> string) list" where
  "pqCommands =
     [(''GET_VERSION'', ''000004011655AA1A''),
      (''GET_BATTERY_INFO'', ''000004011355AA17''),
      (''SERIAL_NUMBER'', ''000004011055AA14'')]"

text \<open>\<open>hex.DecodeString\<close>: fails on an odd length and on a character that is no digit.\<close>

definition fromHexChar :: "char \<Rightarrow> byte option" where
  "fromHexChar c =
     (let n = of_char c :: nat in
      if 48 \<le> n \<and> n \<le> 57 then Some (of_nat (n - 48))
      else if 97 \<le> n \<and> n \<le> 102 then Some (of_nat (n - 97 + 10))
      else if 65 \<le> n \<and> n \<le> 70 then Some (of_nat (n - 65 + 10))
      else None)"

fun hexDecodeString :: "string \<Rightarrow> byte list option" where
  "hexDecodeString [] = Some []"
| "hexDecodeString [c] = None"
| "hexDecodeString (a # b # rest) =
     (case (fromHexChar a, fromHexChar b) of
        (Some h, Some l) \<Rightarrow>
          (case hexDecodeString rest of
             None \<Rightarrow> None
           | Some bs \<Rightarrow> Some ((push_bit 4 h OR l) # bs))
      | _ \<Rightarrow> None)"

text \<open>
  The closure \<open>notificationHandler\<close> of \<open>readBMS\<close>, for the command \<open>name\<close> of the
  iteration that subscribes it. \<open>Some r\<close>: a decoder was called on the payload, with
  outcome \<open>r\<close>; \<open>None\<close>: the payload was dropped without calling any decoder.
\<close>

definition notificationHandler :: "string \<Rightarrow> slice \<Rightarrow> (error + BatteryInfo) option" where
  "notificationHandler name data =
     (if name = ''GET_BATTERY_INFO'' then Some (parseBatteryInfo data) else None)"

text \<open>
  The transport is outside the program. What \<open>readBMS\<close> sees of it is whether each call
  returns an error; what it does to it is the sequence of its calls. \<open>Subscribe name\<close>
  is \<open>EnableNotifications(notificationHandler)\<close> in the iteration for \<open>name\<close>,
  \<open>Unsubscribe\<close> is \<open>EnableNotifications(nil)\<close>, \<open>Sleep\<close> the one-second wait.
  An error of the last call only changes what is printed: the iteration is over either way.
\<close>

record transport =
  subscribeFails :: "string \<Rightarrow> bool"
  writeFails :: "string \<Rightarrow> bool"
  unsubscribeFails :: "string \<Rightarrow> bool"

datatype call = Subscribe string | WriteWithoutResponse "byte list" | Sleep | Unsubscribe

text \<open>One iteration of the loop of \<open>readBMS\<close>; every \<open>continue\<close> ends it.\<close>

definition pollCommand :: "transport \<Rightarrow> string \<times> string \<Rightarrow> call list" where
  "pollCommand t entry =
     (let name = fst entry; cmd = snd entry in
      case hexDecodeString cmd of
        None \<Rightarrow> []
      | Some commandBytes \<Rightarrow>
          if subscribeFails t name then [Subscribe name]
          else if writeFails t name then [Subscribe name, WriteWithoutResponse commandBytes]
          else [Subscribe name, WriteWithoutResponse commandBytes, Sleep, Unsubscribe])"

text \<open>
  \<open>readBMS\<close> ranges over the map \<open>pqCommands\<close> in an order the language leaves open;
  \<open>order\<close> is the order of one run.
\<close>

definition readBMS :: "transport \<Rightarrow> (string \<times> string) list \<Rightarrow> call list" where
  "readBMS t order = concat (map (pollCommand t) order)"

section \<open>Notions the statements use\<close>

text \<open>The unsigned big-endian value of a byte sequence.\<close>

definition bigEndianValue :: "byte list \<Rightarrow> int" where
  "bigEndianValue bs = foldl (\<lambda>v b. 256 * v + uint b) 0 bs"

text \<open>The bytes of the backing array of a slice from \<open>lo\<close> up to \<open>hi\<close>.\<close>

definition bytes :: "slice \<Rightarrow> nat \<Rightarrow> nat \<Rightarrow> byte list" where
  "bytes s lo hi = take (hi - lo) (drop lo (elems s @ spare s))"

text \<open>
  The raw value of cell \<open>k\<close> (counted from 1) of a cell block: the pair at positions
  \<open>2k - 2\<close> and \<open>2k - 1\<close>, the low byte first.
\<close>

definition cellRaw :: "byte list \<Rightarrow> int \<Rightarrow> int" where
  "cellRaw block k = 256 * uint (block ! nat (2 * k - 1)) + uint (block ! nat (2 * k - 2))"

text \<open>The printable ASCII range 0x20 to 0x7E, and the elements at even positions of a list.\<close>

definition printable :: "byte \<Rightarrow> bool" where
  "printable b \<longleftrightarrow> 32 \<le> b \<and> b \<le> 126"

definition evenPositions :: "'a list \<Rightarrow> 'a list" where
  "evenPositions xs = map (nth xs) (filter even [0..<length xs])"

section \<open>Slices and failure\<close>

lemma slice_expr_Inr:
  "lo \<le> hi \<Longrightarrow> hi \<le> cap s \<Longrightarrow>
   slice_expr s lo hi = Inr \<lparr>elems = bytes s lo hi, spare = drop hi (elems s @ spare s)\<rparr>"
  by (simp add: slice_expr_def bytes_def)

lemma slice_expr_eq_Inr:
  "slice_expr s lo hi = Inr d \<longleftrightarrow>
   lo \<le> hi \<and> hi \<le> cap s \<and> d = \<lparr>elems = bytes s lo hi, spare = drop hi (elems s @ spare s)\<rparr>"
  by (auto simp: slice_expr_def bytes_def)

lemma length_bytes: "lo \<le> hi \<Longrightarrow> hi \<le> cap s \<Longrightarrow> length (bytes s lo hi) = hi - lo"
  by (simp add: bytes_def cap_def)

lemma index_eq_Inr: "index s i = Inr b \<longleftrightarrow> i < len s \<and> b = elems s ! i"
  by (auto simp: index_def)

lemma bind_result_Inr [simp]: "bind_result (Inr x) f = f x"
  by (simp add: bind_result_def)

lemma bind_result_Inl [simp]: "bind_result (Inl e) f = Inl e"
  by (simp add: bind_result_def)

lemma bind_result_eq_Inr:
  "bind_result m f = Inr y \<longleftrightarrow> (\<exists>x. m = Inr x \<and> f x = Inr y)"
  by (cases m) simp_all

section \<open>Integers read from bytes\<close>

lemma bigEndianValue_snoc: "bigEndianValue (bs @ [b]) = 256 * bigEndianValue bs + uint b"
  by (simp add: bigEndianValue_def)

lemma binaryToInt_snoc: "binaryToInt (bs @ [b]) = push_bit 8 (binaryToInt bs) OR ucast b"
  by (simp add: binaryToInt_def)

lemma bigEndianValue_bounds: "0 \<le> bigEndianValue bs \<and> bigEndianValue bs < 256 ^ length bs"
proof (induction bs rule: rev_induct)
  case Nil
  show ?case by (simp add: bigEndianValue_def)
next
  case (snoc b bs)
  have "uint b < 256" using uint_bounded [of b] by simp
  moreover have "0 \<le> uint b" by simp
  ultimately show ?case using snoc by (simp add: bigEndianValue_snoc)
qed

lemma or_byte_int:
  fixes x y :: int
  assumes "0 \<le> y" "y < 256"
  shows "push_bit 8 x OR y = 256 * x + y"
proof -
  have y: "take_bit 8 y = y"
    using assms by (simp add: take_bit_int_eq_self)
  have "push_bit 8 x + take_bit 8 y = push_bit 8 x OR take_bit 8 y"
    by (rule disjunctive_add) (simp add: bit_simps)
  then show ?thesis
    by (simp add: y push_bit_eq_mult)
qed

lemma uint_binaryToInt:
  "length bs \<le> 8 \<Longrightarrow> uint (binaryToInt bs) = bigEndianValue bs"
proof (induction bs rule: rev_induct)
  case Nil
  show ?case by (simp add: binaryToInt_def bigEndianValue_def)
next
  case (snoc b bs)
  then have ih: "uint (binaryToInt bs) = bigEndianValue bs" and n: "length bs \<le> 7"
    by simp_all
  have "bigEndianValue bs < 256 ^ length bs" "0 \<le> bigEndianValue bs"
    using bigEndianValue_bounds [of bs] by simp_all
  moreover have "(256::int) ^ length bs \<le> 256 ^ 7"
    using n by (intro power_increasing) simp_all
  ultimately have small: "bigEndianValue bs < 2 ^ 56" "0 \<le> bigEndianValue bs"
    by simp_all
  have b: "0 \<le> uint b" "uint b < 256"
    using uint_bounded [of b] by simp_all
  have "uint (binaryToInt (bs @ [b]))
      = take_bit 64 (push_bit 8 (bigEndianValue bs)) OR uint b"
    using b by (simp add: binaryToInt_snoc unsigned_or_eq unsigned_push_bit_eq
        unsigned_ucast_eq ih take_bit_int_eq_self)
  also have "take_bit 64 (push_bit 8 (bigEndianValue bs)) = push_bit 8 (bigEndianValue bs)"
    using small by (simp add: take_bit_int_eq_self push_bit_eq_mult)
  finally show ?case
    by (simp add: or_byte_int b bigEndianValue_snoc)
qed

lemma sint_binaryToInt:
  assumes "length bs \<le> 7"
  shows "sint (binaryToInt bs) = bigEndianValue bs"
proof -
  have u: "uint (binaryToInt bs) = bigEndianValue bs"
    using assms by (simp add: uint_binaryToInt)
  have "bigEndianValue bs < 256 ^ length bs"
    using bigEndianValue_bounds [of bs] by simp
  moreover have "(256::int) ^ length bs \<le> 256 ^ 7"
    using assms by (intro power_increasing) simp_all
  ultimately have "uint (binaryToInt bs) < 2 ^ 63"
    by (simp add: u)
  moreover have "- (2 ^ 63) \<le> uint (binaryToInt bs)"
    by (rule order_trans [of _ 0]) simp_all
  ultimately have "sint (binaryToInt bs) = uint (binaryToInt bs)"
    by (simp add: sint_uint signed_take_bit_int_eq_self_iff)
  then show ?thesis by (simp add: u)
qed

lemma no_high: "\<not> (8 \<le> drop_bit 7 (b::byte))"
proof -
  have "unat b < 256" using unsigned_less [of b, where ?'a = nat] by simp
  moreover have "unat (drop_bit 7 b) = drop_bit 7 (unat b)"
    by (rule unat_drop_bit_eq)
  ultimately have "unat (drop_bit 7 b) < 2"
    by (simp only: drop_bit_eq_div) simp
  then show ?thesis by (simp only: word_le_nat_alt) simp
qed

lemma reverseBytes_aux:
  fixes data :: "byte list"
  shows "n \<le> length data \<Longrightarrow>
   foldl (\<lambda>reversed i. reversed[length data - i - 1 := data ! i]) (replicate (length data) 0) [0..<n]
   = replicate (length data - n) 0 @ rev (take n data)"
proof (induction n)
  case 0
  show ?case by simp
next
  case (Suc n)
  then have n: "n < length data" by simp
  define m where "m = length data - Suc n"
  have m: "length data - n = Suc m" "length data - n - 1 = m"
    using n by (simp_all add: m_def)
  have "(replicate (Suc m) (0::byte) @ rev (take n data))[m := data ! n]
      = (replicate m 0 @ 0 # rev (take n data))[length (replicate m (0::byte)) := data ! n]"
    by (simp add: replicate_app_Cons_same)
  also have "\<dots> = replicate m 0 @ data ! n # rev (take n data)"
    by (rule list_update_length)
  also have "\<dots> = replicate m 0 @ rev (take (Suc n) data)"
    using n by (simp add: take_Suc_conv_app_nth)
  finally show ?case
    using Suc by (simp add: m del: replicate_Suc) (simp add: m_def)
qed

lemma reverseBytes_rev: "reverseBytes data = rev data"
  using reverseBytes_aux [of "length data" data] by (simp add: reverseBytes_def)

lemma or_bytes_int:
  fixes a b c d :: int
  assumes "0 \<le> a" "a < 256" "0 \<le> b" "b < 256" "0 \<le> c" "c < 256"
  shows "a OR push_bit 8 b OR push_bit 16 c OR push_bit 24 d
       = 256 * (256 * (256 * d + c) + b) + a"
proof -
  have "a OR push_bit 8 b OR push_bit 16 c OR push_bit 24 d
      = push_bit 8 (push_bit 8 (push_bit 8 d OR c) OR b) OR a"
    by (simp add: ac_simps)
  also have "\<dots> = 256 * (256 * (256 * d + c) + b) + a"
    using assms by (simp only: or_byte_int)
  finally show ?thesis .
qed

lemma bigEndianUint32_4:
  "bigEndianUint32 [d, c, b, a] = Inr w \<Longrightarrow> uint w = bigEndianValue [d, c, b, a]"
proof -
  assume "bigEndianUint32 [d, c, b, a] = Inr w"
  then have w: "w = ucast a OR push_bit 8 (ucast b) OR push_bit 16 (ucast c) OR push_bit 24 (ucast d)"
    by (simp add: bigEndianUint32_def)
  have bd: "\<And>x::byte. 0 \<le> uint x \<and> uint x < 256 \<and> uint x < 4294967296"
  proof -
    fix x :: byte
    have "uint x < 256" using uint_bounded [of x] by simp
    then show "0 \<le> uint x \<and> uint x < 256 \<and> uint x < 4294967296" by simp
  qed
  have tb: "\<And>(x::byte) n. n \<le> 24 \<Longrightarrow> take_bit 32 (push_bit n (uint x)) = push_bit n (uint x)"
  proof -
    fix x :: byte and n :: nat
    assume n: "n \<le> 24"
    have "uint x * 2 ^ n < 256 * 2 ^ n"
      using bd [of x] by simp
    also have "(256::int) * 2 ^ n \<le> 256 * 2 ^ 24"
      using n by (intro mult_left_mono power_increasing) simp_all
    finally show "take_bit 32 (push_bit n (uint x)) = push_bit n (uint x)"
      by (simp add: take_bit_int_eq_self push_bit_eq_mult)
  qed
  have "uint w = uint a OR push_bit 8 (uint b) OR push_bit 16 (uint c) OR push_bit 24 (uint d)"
    unfolding w
    by (simp only: unsigned_or_eq unsigned_push_bit_eq unsigned_ucast_eq tb)
       (simp add: take_bit_int_eq_self bd tb)
  also have "\<dots> = 256 * (256 * (256 * uint d + uint c) + uint b) + uint a"
    using bd by (intro or_bytes_int) simp_all
  finally show ?thesis
    by (simp add: bigEndianValue_def)
qed

lemma binaryToIntBigEndian_4:
  assumes "length bs = 4"
  shows "binaryToIntBigEndian bs = Inr (bigEndianValue (rev bs))"
proof -
  obtain a b c d where bs: "bs = [a, b, c, d]"
    using assms by (auto simp: length_Suc_conv numeral_eq_Suc)
  obtain w where w: "bigEndianUint32 [d, c, b, a] = Inr w"
    by (simp add: bigEndianUint32_def)
  from bigEndianUint32_4 [OF w] w show ?thesis
    by (simp add: binaryToIntBigEndian_def bs reverseBytes_rev)
qed

section \<open>The cell loop\<close>

lemma sint_pair: "sint (binaryToInt [hi, lo]) = 256 * uint hi + uint lo"
  by (simp add: sint_binaryToInt bigEndianValue_def)

lemma cellLoop_even:
  assumes "even (len bp)" "even i"
  shows "cellLoop bp i m =
    Inr (\<lambda>k. if int i div 2 < k \<and> k \<le> int (len bp) div 2 \<and> cellRaw (elems bp) k \<noteq> 0
             then Some (of_int (cellRaw (elems bp) k) / 1000) else m k)"
  using assms
proof (induction bp i m rule: cellLoop.induct)
  case (1 bp i m)
  let ?res = "\<lambda>i m k. if int i div 2 < k \<and> k \<le> int (len bp) div 2 \<and> cellRaw (elems bp) k \<noteq> 0
             then Some (of_int (cellRaw (elems bp) k) / 1000) else m k"
  show ?case
  proof (cases "i < len bp")
    case False
    then have "\<not> (int i div 2 < k \<and> k \<le> int (len bp) div 2)" for k
      by linarith
    then have "?res i m = m"
      by (intro ext) auto
    with False show ?thesis
      by (subst cellLoop.simps) simp
  next
    case True
    with "1.prems" have i1: "i + 1 < len bp"
      by presburger
    define j where "j = int i div 2 + 1"
    have j: "nat (2 * j - 1) = i + 1" "nat (2 * j - 2) = i"
      using "1.prems"(2) by (auto simp: j_def)
    define v where "v = sint (binaryToInt [elems bp ! (i + 1), elems bp ! i])"
    have v: "v = cellRaw (elems bp) j"
      by (simp add: v_def sint_pair cellRaw_def j)
    have idx: "index bp (i + 1) = Inr (elems bp ! (i + 1))" "index bp i = Inr (elems bp ! i)"
      using True i1 by (simp_all add: index_def)
    have next_i: "int (i + 2) div 2 = j" "int i div 2 = j - 1" "j \<le> int (len bp) div 2"
      using i1 "1.prems" by (auto simp: j_def)
    have shift: "(int (i + 2) div 2 < k) = (int i div 2 < k)" if "k \<noteq> j" for k
      using that unfolding next_i by linarith
    have ev: "even (i + 2)"
      using "1.prems"(2) by simp
    have step: "cellLoop bp i m =
        (if v = 0 then cellLoop bp (i + 2) m
         else cellLoop bp (i + 2) (m(j \<mapsto> of_int v / 1000)))"
      using idx by (subst cellLoop.simps) (simp add: \<open>i < len bp\<close> v_def j_def Let_def)
    show ?thesis
    proof (cases "v = 0")
      case True
      have "?res (i + 2) m k = ?res i m k" for k
      proof (cases "k = j")
        case True
        with \<open>v = 0\<close> v show ?thesis
          unfolding next_i by simp
      next
        case False
        show ?thesis
          by (simp only: shift [OF False])
      qed
      then have same: "?res (i + 2) m = ?res i m"
        by (intro ext)
      have "cellLoop bp i m = cellLoop bp (i + 2) m"
        using True by (simp only: step) simp
      also have "\<dots> = Inr (?res (i + 2) m)"
        by (rule "1.IH"(1) [OF \<open>i < len bp\<close> idx(1) idx(2) v_def True "1.prems"(1) ev])
      finally show ?thesis
        by (simp only: same)
    next
      case False
      let ?m' = "m(j \<mapsto> of_int v / 1000)"
      have "?res (i + 2) ?m' k = ?res i m k" for k
      proof (cases "k = j")
        case True
        with False v next_i(3) show ?thesis
          unfolding next_i(1,2) by simp
      next
        case False
        show ?thesis
          using False by (simp only: shift [OF False]) simp
      qed
      then have same: "?res (i + 2) ?m' = ?res i m"
        by (intro ext)
      have "cellLoop bp i m = cellLoop bp (i + 2) ?m'"
        using False by (simp only: step) simp
      also have "\<dots> = Inr (?res (i + 2) ?m')"
        unfolding j_def
        by (rule "1.IH"(2) [OF \<open>i < len bp\<close> idx(1) idx(2) v_def False "1.prems"(1) ev])
      finally show ?thesis
        by (simp only: same)
    qed
  qed
qed

section \<open>What a decoded record holds\<close>

lemma bind_resultE:
  assumes "bind_result m f = Inr y"
  obtains x where "m = Inr x" "f x = Inr y"
  using assms by (auto simp: bind_result_eq_Inr)

lemma if_update_simps:
  "(if c then r\<lparr>DischargeSwitchState := i\<rparr> else r\<lparr>DischargeSwitchState := j\<rparr>)
     = r\<lparr>DischargeSwitchState := (if c then i else j)\<rparr>"
  "(if c then r\<lparr>BalanceStatus := x\<rparr> else r\<lparr>BalanceStatus := y\<rparr>)
     = r\<lparr>BalanceStatus := (if c then x else y)\<rparr>"
  "(if c then r\<lparr>CellStatus := x\<rparr> else r\<lparr>CellStatus := y\<rparr>)
     = r\<lparr>CellStatus := (if c then x else y)\<rparr>"
  "(if c then r\<lparr>HeatStatus := x\<rparr> else r\<lparr>HeatStatus := y\<rparr>)
     = r\<lparr>HeatStatus := (if c then x else y)\<rparr>"
  by simp_all

lemma getBatteryStatus_cong:
  "Current a = Current b \<Longrightarrow> SOC a = SOC b \<Longrightarrow> BatteryState a = BatteryState b \<Longrightarrow>
   getBatteryStatus a = getBatteryStatus b"
  by (simp add: getBatteryStatus_def)

lemma getBatteryStatus_update:
  "getBatteryStatus (r\<lparr>BatteryStatus := x\<rparr>) = getBatteryStatus r"
  "getBatteryStatus (r\<lparr>BalanceStatus := x\<rparr>) = getBatteryStatus r"
  "getBatteryStatus (r\<lparr>CellStatus := x\<rparr>) = getBatteryStatus r"
  "getBatteryStatus (r\<lparr>HeatStatus := x\<rparr>) = getBatteryStatus r"
  by (simp_all add: getBatteryStatus_def)

lemma parse_fields:
  assumes "parseBatteryInfo s = Inr b"
  shows "104 \<le> cap s \<and> 69 \<le> len s \<and>
    cellLoop \<lparr>elems = bytes s 16 48, spare = drop 48 (elems s @ spare s)\<rparr> 0 Map.empty
      = Inr (BatteryPack b) \<and>
    binaryToIntBigEndian (bytes s 12 16) = Inr (Voltage b) \<and>
    Current b = of_int (sint (binaryToInt (bytes s 48 52))) / 1000 \<and>
    SOC b = sint (binaryToInt (bytes s 90 92)) \<and>
    BatteryState b = sint (binaryToInt (bytes s 88 90)) \<and>
    DischargeSwitchState b = (if drop_bit 7 (elems s ! 68) \<ge> 8 then 0 else 1) \<and>
    DischargesAHCount b = sint (binaryToInt (bytes s 100 104))"
  using assms unfolding parseBatteryInfo_def Let_def if_update_simps
  apply (elim bind_resultE)
  apply (clarsimp simp: slice_expr_eq_Inr index_eq_Inr newBatteryInfo_def)
  done

lemma parse_Watt:
  assumes "parseBatteryInfo s = Inr b"
  shows "Watt b = mathRound (of_int (Voltage b) * Current b / 10000 * 100) / 100"
  using assms unfolding parseBatteryInfo_def Let_def if_update_simps
  apply (elim bind_resultE)
  apply (clarsimp simp: ac_simps)
  done

lemma parse_BatteryStatus:
  assumes "parseBatteryInfo s = Inr b"
  shows "BatteryStatus b = getBatteryStatus b"
  using assms unfolding parseBatteryInfo_def Let_def if_update_simps
  apply (elim bind_resultE)
  apply (simp only: if_update_simps)
  apply (clarsimp simp: getBatteryStatus_update)
  done

lemma length_hexEncodeToString: "length (hexEncodeToString bs) = 2 * length bs"
  by (induction bs) (simp_all add: hexEncodeToString_def)

lemma if_Inr: "(if c then Inr a else Inr b) = Inr (if c then a else b)"
  by simp

lemma parse_total:
  assumes "104 \<le> cap s" "69 \<le> len s"
  shows "\<exists>b. parseBatteryInfo s = Inr b"
proof -
  have sl: "slice_expr s lo hi = Inr \<lparr>elems = bytes s lo hi, spare = drop hi (elems s @ spare s)\<rparr>"
    if "lo \<le> hi" "hi \<le> 104" for lo hi
    using that assms(1) by (intro slice_expr_Inr) simp_all
  have ln: "length (bytes s lo hi) = hi - lo" if "lo \<le> hi" "hi \<le> 104" for lo hi
    using that assms(1) by (intro length_bytes) simp_all
  have be: "binaryToIntBigEndian (bytes s 8 12) = Inr (bigEndianValue (rev (bytes s 8 12)))"
    "binaryToIntBigEndian (bytes s 12 16) = Inr (bigEndianValue (rev (bytes s 12 16)))"
    by (rule binaryToIntBigEndian_4, simp add: ln)+
  have pack: "cellLoop \<lparr>elems = bytes s 16 48, spare = sp\<rparr> 0 Map.empty
      = Inr (\<lambda>k. if 0 < k \<and> k \<le> 16 \<and> cellRaw (bytes s 16 48) k \<noteq> 0
                 then Some (of_int (cellRaw (bytes s 16 48) k) / 1000) else None)" for sp
    by (simp add: cellLoop_even len_def ln cong: if_cong)
  have i68: "index s 68 = Inr (elems s ! 68)"
    using assms(2) by (simp add: index_def)
  have fs: "index \<lparr>elems = bytes s 80 84, spare = sp\<rparr> 0 = Inr (bytes s 80 84 ! 0)"
    "index \<lparr>elems = bytes s 80 84, spare = sp\<rparr> (Suc 0) = Inr (bytes s 80 84 ! 1)" for sp
    by (simp_all add: index_def len_def ln)
  have h7: "string_index (hexEncodeToString (bytes s 68 72)) 7
      = Inr (hexEncodeToString (bytes s 68 72) ! 7)"
    by (simp add: string_index_def length_hexEncodeToString ln)
  have new: "BatteryPack newBatteryInfo = Map.empty"
    by (simp add: newBatteryInfo_def)
  show ?thesis
    unfolding parseBatteryInfo_def Let_def
    by (simp add: sl be pack i68 fs h7 if_Inr new if_update_simps
        split del: if_split cong: if_cong)
qed

lemma bind_not_Fatal:
  assumes "m \<noteq> Inl Fatal" "\<And>x. m = Inr x \<Longrightarrow> f x \<noteq> Inl Fatal"
  shows "bind_result m f \<noteq> Inl Fatal"
  using assms by (cases m) simp_all

lemma cellLoop_not_Fatal: "cellLoop bp i m \<noteq> Inl Fatal"
proof (induction bp i m rule: cellLoop.induct)
  case (1 bp i m)
  show ?case
  proof (cases "i + 1 < len bp")
    case False
    then show ?thesis
      by (subst cellLoop.simps) (simp add: index_def)
  next
    case True
    then have lt: "i < len bp" by simp
    have idx: "index bp (i + 1) = Inr (elems bp ! (i + 1))" "index bp i = Inr (elems bp ! i)"
      using True by (simp_all add: index_def)
    define v where "v = sint (binaryToInt [elems bp ! (i + 1), elems bp ! i])"
    have step: "cellLoop bp i m =
        (if v = 0 then cellLoop bp (i + 2) m
         else cellLoop bp (i + 2) (m(int i div 2 + 1 \<mapsto> of_int v / 1000)))"
      using idx by (subst cellLoop.simps) (simp add: lt v_def Let_def)
    show ?thesis
    proof (cases "v = 0")
      case True
      from "1.IH"(1) [OF lt idx v_def True] show ?thesis
        by (simp only: step True if_True) simp
    next
      case False
      from "1.IH"(2) [OF lt idx v_def False] show ?thesis
        using False by (simp only: step if_False) simp
    qed
  qed
qed

lemma parse_not_Fatal: "parseBatteryInfo s \<noteq> Inl Fatal"
  unfolding parseBatteryInfo_def Let_def
  apply (intro bind_not_Fatal)
  apply (simp_all add: slice_expr_eq_Inr cellLoop_not_Fatal if_update_simps
       split del: if_split)
  apply (simp_all add: slice_expr_def index_def string_index_def binaryToIntBigEndian_4 length_bytes)
  done

lemma parse_Panic:
  assumes "cap s < 104 \<or> len s < 69"
  shows "parseBatteryInfo s = Inl Panic"
proof (cases "parseBatteryInfo s")
  case (Inl e)
  with parse_not_Fatal [of s] show ?thesis
    by (cases e) simp_all
next
  case (Inr b)
  from parse_fields [OF this] assms show ?thesis
    by simp
qed

lemma len_le_cap: "len s \<le> cap s"
  by (simp add: len_def cap_def)

lemma parse_frame:
  assumes "104 \<le> len s"
  obtains b where "parseBatteryInfo s = Inr b"
proof -
  have "104 \<le> cap s" "69 \<le> len s"
    using assms len_le_cap [of s] by simp_all
  then show thesis
    using parse_total that by blast
qed

lemma bytes_elems:
  assumes "hi \<le> len s"
  shows "bytes s lo hi = take (hi - lo) (drop lo (elems s))"
  using assms by (simp add: bytes_def len_def)

section \<open>The discharge switch\<close>

text \<open>
  Claim C6. For every battery frame of at least 104 bytes, \<open>DischargeSwitchState\<close> is 0
  exactly when byte 68 shifted right by 7 is at least 8, and 1 otherwise; a byte shifted
  right by 7 is at most 1, so the field is 1 for every frame.
\<close>

theorem discharge_switch_always_on:
  assumes "104 \<le> len s"
  shows "\<exists>b. parseBatteryInfo s = Inr b \<and>
    DischargeSwitchState b = (if drop_bit 7 (elems s ! 68) \<ge> 8 then 0 else 1) \<and>
    DischargeSwitchState b = 1"
proof -
  from assms obtain b where b: "parseBatteryInfo s = Inr b"
    by (rule parse_frame)
  from parse_fields [OF b]
  have "DischargeSwitchState b = (if drop_bit 7 (elems s ! 68) \<ge> 8 then 0 else 1)"
    by (simp only:)
  moreover from this have "DischargeSwitchState b = 1"
    by (simp only: no_high if_False)
  ultimately show ?thesis
    using b by blast
qed

text \<open>A frame whose byte 68 has every bit set still decodes to switch state 1.\<close>

theorem discharge_switch_always_on_witness:
  "104 \<le> len (buffer (replicate 68 0 @ [255] @ replicate 35 0)) \<and>
   map_sum id DischargeSwitchState
     (parseBatteryInfo (buffer (replicate 68 0 @ [255] @ replicate 35 0))) = Inr 1"
  using discharge_switch_always_on [of "buffer (replicate 68 0 @ [255] @ replicate 35 0)"]
  by (auto simp: len_def buffer_def)

section \<open>The current and what depends on it\<close>

lemma binaryToInt_nonneg:
  assumes "length bs \<le> 7"
  shows "0 \<le> sint (binaryToInt bs)"
  using assms bigEndianValue_bounds [of bs] by (simp add: sint_binaryToInt)

lemma mathRound_nonneg:
  assumes "0 \<le> x"
  shows "0 \<le> mathRound x"
proof -
  have "0 \<le> \<lfloor>x + 1 / 2\<rfloor>"
    using assms by simp
  then show ?thesis
    using assms by (simp add: mathRound_def)
qed

lemma parse_Current:
  assumes "parseBatteryInfo s = Inr b"
  shows "Current b = of_int (bigEndianValue (bytes s 48 52)) / 1000"
proof -
  from parse_fields [OF assms] have c: "104 \<le> cap s"
    and cur: "Current b = of_int (sint (binaryToInt (bytes s 48 52))) / 1000"
    by simp_all
  have "length (bytes s 48 52) = 4"
    using c by (simp add: length_bytes)
  then show ?thesis
    by (simp add: cur sint_binaryToInt)
qed

lemma parse_Voltage:
  assumes "parseBatteryInfo s = Inr b"
  shows "Voltage b = bigEndianValue (rev (bytes s 12 16))"
proof -
  from parse_fields [OF assms] have c: "104 \<le> cap s"
    and v: "binaryToIntBigEndian (bytes s 12 16) = Inr (Voltage b)"
    by simp_all
  have "length (bytes s 12 16) = 4"
    using c by (simp add: length_bytes)
  from binaryToIntBigEndian_4 [OF this] v show ?thesis
    by simp
qed

lemma getBatteryStatus_nonneg:
  assumes "0 \<le> Current b"
  shows "getBatteryStatus b \<noteq> ''Discharging''"
  using assms by (simp add: getBatteryStatus_def)

text \<open>
  Claim C9. \<open>binaryToInt\<close> on at most 7 bytes is never negative; so for every buffer
  of at least 104 bytes the decoded \<open>Current\<close> and \<open>Watt\<close> are at least 0 and
  \<open>BatteryStatus\<close> is never \<open>Discharging\<close>.
\<close>

theorem current_never_negative:
  "(length bs \<le> 7 \<longrightarrow> 0 \<le> sint (binaryToInt bs)) \<and>
   (104 \<le> len s \<longrightarrow>
     (\<exists>b. parseBatteryInfo s = Inr b \<and> 0 \<le> Current b \<and> 0 \<le> Watt b \<and>
          BatteryStatus b \<noteq> ''Discharging''))"
proof (intro conjI impI)
  assume "length bs \<le> 7"
  then show "0 \<le> sint (binaryToInt bs)"
    by (rule binaryToInt_nonneg)
next
  assume "104 \<le> len s"
  then obtain b where b: "parseBatteryInfo s = Inr b"
    by (rule parse_frame)
  have cur: "0 \<le> Current b"
    using bigEndianValue_bounds [of "bytes s 48 52"] by (simp add: parse_Current [OF b])
  have vol: "0 \<le> Voltage b"
    using bigEndianValue_bounds [of "rev (bytes s 12 16)"] by (simp add: parse_Voltage [OF b])
  have "0 \<le> of_int (Voltage b) * Current b / 10000 * 100"
    using cur vol by simp
  then have "0 \<le> mathRound (of_int (Voltage b) * Current b / 10000 * 100) / 100"
    by (intro divide_nonneg_nonneg mathRound_nonneg) simp_all
  then have watt: "0 \<le> Watt b"
    by (simp only: parse_Watt [OF b])
  have "BatteryStatus b \<noteq> ''Discharging''"
    using getBatteryStatus_nonneg [OF cur] by (simp add: parse_BatteryStatus [OF b])
  with b cur watt
  show "\<exists>b. parseBatteryInfo s = Inr b \<and> 0 \<le> Current b \<and> 0 \<le> Watt b \<and>
          BatteryStatus b \<noteq> ''Discharging''"
    by blast
qed

text \<open>
  Seven bytes of 255, and a frame whose current field has its top bit set.
\<close>

theorem current_never_negative_witness:
  "length (replicate 7 (255 :: byte)) \<le> 7 \<and> 0 \<le> sint (binaryToInt (replicate 7 255)) \<and>
   104 \<le> len (buffer (replicate 48 0 @ [128, 0, 0, 0] @ replicate 52 0)) \<and>
   (\<exists>b. parseBatteryInfo (buffer (replicate 48 0 @ [128, 0, 0, 0] @ replicate 52 0)) = Inr b \<and>
        0 \<le> Current b \<and> 0 \<le> Watt b \<and> BatteryStatus b \<noteq> ''Discharging'')"
  using current_never_negative
    [of "replicate 7 255" "buffer (replicate 48 0 @ [128, 0, 0, 0] @ replicate 52 0)"]
  by (simp add: len_def buffer_def)

text \<open>
  Claim C2. The claim reads the four bytes at 48 as a signed 32-bit number, so that a set
  top bit of byte 48 gives a negative current. The decoder accumulates them in an
  \<open>int64\<close> and never sign-extends: on the frame that is zero except for byte 48 = 0x80
  the current is +2147483.648, not -2147483.648.
\<close>

theorem current_high_bit_positive:
  "map_sum id Current
     (parseBatteryInfo (buffer (replicate 48 0 @ [128, 0, 0, 0] @ replicate 52 0)))
   = Inr (2147483648 / 1000)"
proof -
  let ?s = "buffer (replicate 48 0 @ [128, 0, 0, 0] @ replicate 52 0)"
  have "104 \<le> len ?s"
    by (simp add: len_def buffer_def)
  then obtain b where b: "parseBatteryInfo ?s = Inr b"
    by (rule parse_frame)
  have "bytes ?s 48 52 = [128, 0, 0, 0]"
    by (simp add: bytes_def buffer_def)
  then have "Current b = 2147483648 / 1000"
    by (simp add: parse_Current [OF b] bigEndianValue_def)
  with b show ?thesis
    by simp
qed

section \<open>The status string\<close>

text \<open>
  Claim C3. \<open>SOC \<ge> 100\<close> or \<open>BatteryState = 4\<close> gives \<open>Full Charge\<close> whatever the
  current; otherwise a zero current gives \<open>Standby\<close>, a positive one \<open>Charging\<close>, a
  negative one \<open>Discharging\<close>. This holds of \<open>getBatteryStatus\<close> on every record, and
  the \<open>BatteryStatus\<close> of a decoded record is \<open>getBatteryStatus\<close> of that record.
\<close>

theorem battery_status_derivation:
  "(getBatteryStatus r =
      (if 100 \<le> SOC r \<or> BatteryState r = 4 then ''Full Charge''
       else if Current r = 0 then ''Standby''
       else if 0 < Current r then ''Charging''
       else ''Discharging'')) \<and>
   (Current r < 0 \<and> \<not> (100 \<le> SOC r \<or> BatteryState r = 4) \<longrightarrow>
      getBatteryStatus r = ''Discharging'') \<and>
   (parseBatteryInfo s = Inr b \<longrightarrow> BatteryStatus b = getBatteryStatus b)"
  using parse_BatteryStatus [of s b] by (auto simp: getBatteryStatus_def)

text \<open>
  A record with a negative current, with and without the override, and a frame whose
  current field is 1.
\<close>

theorem battery_status_derivation_witness:
  "getBatteryStatus (newBatteryInfo\<lparr>Current := - 5\<rparr>) = ''Discharging'' \<and>
   getBatteryStatus (newBatteryInfo\<lparr>Current := - 5, SOC := 100\<rparr>) = ''Full Charge'' \<and>
   map_sum id BatteryStatus
     (parseBatteryInfo (buffer (replicate 48 0 @ [0, 0, 0, 1] @ replicate 52 0)))
   = Inr ''Charging''"
proof -
  let ?s = "buffer (replicate 48 0 @ [0, 0, 0, 1] @ replicate 52 0)"
  have "104 \<le> len ?s"
    by (simp add: len_def buffer_def)
  then obtain b where b: "parseBatteryInfo ?s = Inr b"
    by (rule parse_frame)
  have r2: "replicate 2 (0::byte) = [0, 0]"
    by (simp add: numeral_2_eq_2)
  have bs: "bytes ?s 48 52 = [0, 0, 0, 1]" "bytes ?s 90 92 = [0, 0]" "bytes ?s 88 90 = [0, 0]"
    by (simp_all add: bytes_def buffer_def r2)
  have cur: "Current b = 1 / 1000"
    using bs(1) by (simp add: parse_Current [OF b] bigEndianValue_def)
  have st: "SOC b = 0" "BatteryState b = 0"
    using parse_fields [OF b] bs(2,3) by (simp_all add: binaryToInt_def)
  have "BatteryStatus b = ''Charging''"
    using battery_status_derivation [of b ?s b] b by (simp add: cur st)
  with b have "map_sum id BatteryStatus (parseBatteryInfo ?s) = Inr ''Charging''"
    by simp
  moreover have "getBatteryStatus (newBatteryInfo\<lparr>Current := - 5\<rparr>) = ''Discharging''"
    using battery_status_derivation [of "newBatteryInfo\<lparr>Current := - 5\<rparr>" ?s b]
    by (simp add: newBatteryInfo_def)
  moreover
  have "getBatteryStatus (newBatteryInfo\<lparr>Current := - 5, SOC := 100\<rparr>) = ''Full Charge''"
    using battery_status_derivation [of "newBatteryInfo\<lparr>Current := - 5, SOC := 100\<rparr>" ?s b]
    by (simp add: newBatteryInfo_def)
  ultimately show ?thesis
    by simp
qed

section \<open>The cell-voltage map\<close>

lemma cellLoop_block:
  assumes "length block = 32"
  shows "cellLoop \<lparr>elems = block, spare = sp\<rparr> 0 Map.empty
      = Inr (\<lambda>k. if 1 \<le> k \<and> k \<le> 16 \<and> cellRaw block k \<noteq> 0
                 then Some (of_int (cellRaw block k) / 1000) else None)"
proof -
  have "(\<lambda>k. if 0 < k \<and> k \<le> 16 \<and> cellRaw block k \<noteq> 0
                 then Some (of_int (cellRaw block k) / 1000) else None)
      = (\<lambda>k. if 1 \<le> k \<and> k \<le> 16 \<and> cellRaw block k \<noteq> 0
                 then Some (rat_of_int (cellRaw block k) / 1000) else None)"
    by (intro ext) auto
  then show ?thesis
    using assms by (simp add: cellLoop_even len_def cong: if_cong)
qed

text \<open>
  Claim C5. For every battery frame of at least 104 bytes, the cell-voltage map built from
  the 32 bytes at offsets 16 to 47 has no key 0 and no entry whose value is zero, its keys
  lie in 1..16, and each value present is the 16-bit value of its pair, low byte first,
  divided by 1000. The last conjunct adds which keys are absent: those outside 1..16 and
  those whose pair reads as zero.
\<close>

theorem cell_voltage_map:
  assumes "104 \<le> len s"
  shows "\<exists>b. parseBatteryInfo s = Inr b \<and>
    BatteryPack b 0 = None \<and>
    0 \<notin> ran (BatteryPack b) \<and>
    dom (BatteryPack b) \<subseteq> {1..16} \<and>
    (\<forall>k v. BatteryPack b k = Some v \<longrightarrow>
       v = of_int (cellRaw (take 32 (drop 16 (elems s))) k) / 1000) \<and>
    (\<forall>k. BatteryPack b k = None \<longleftrightarrow>
       \<not> (1 \<le> k \<and> k \<le> 16) \<or> cellRaw (take 32 (drop 16 (elems s))) k = 0)"
proof -
  let ?block = "take 32 (drop 16 (elems s))"
  let ?pack = "\<lambda>k. if 1 \<le> k \<and> k \<le> 16 \<and> cellRaw ?block k \<noteq> 0
                 then Some (of_int (cellRaw ?block k) / 1000 :: float64) else None"
  from assms obtain b where b: "parseBatteryInfo s = Inr b"
    by (rule parse_frame)
  have blk: "bytes s 16 48 = ?block"
    using assms by (simp add: bytes_elems)
  have "length ?block = 32"
    using assms by (simp add: len_def)
  from cellLoop_block [OF this] parse_fields [OF b]
  have pack: "BatteryPack b = ?pack"
    by (simp add: blk)
  have "BatteryPack b 0 = None"
    by (simp add: pack)
  moreover have "0 \<notin> ran (BatteryPack b)"
    by (auto simp: pack ran_def)
  moreover have "dom (BatteryPack b) \<subseteq> {1..16}"
    by (auto simp: pack dom_def)
  moreover have "\<forall>k v. BatteryPack b k = Some v \<longrightarrow> v = of_int (cellRaw ?block k) / 1000"
    by (simp add: pack)
  moreover have "\<forall>k. BatteryPack b k = None \<longleftrightarrow>
      \<not> (1 \<le> k \<and> k \<le> 16) \<or> cellRaw ?block k = 0"
    by (simp add: pack)
  ultimately show ?thesis
    using b by blast
qed

text \<open>
  A frame whose first pair is E4 0C (3300, hence 3.3 volts) and whose other pairs are zero.
\<close>

theorem cell_voltage_map_witness:
  "104 \<le> len (buffer (replicate 16 0 @ [228, 12, 0, 0] @ replicate 84 0)) \<and>
   map_sum id (\<lambda>b. (BatteryPack b 0, BatteryPack b 1, BatteryPack b 2, BatteryPack b 17))
     (parseBatteryInfo (buffer (replicate 16 0 @ [228, 12, 0, 0] @ replicate 84 0)))
   = Inr (None, Some (3300 / 1000), None, None)"
proof -
  let ?s = "buffer (replicate 16 0 @ [228, 12, 0, 0] @ replicate 84 0)"
  have l: "104 \<le> len ?s"
    by (simp add: len_def buffer_def)
  have blk: "take 32 (drop 16 (elems ?s)) = [228, 12, 0, 0] @ replicate 28 0"
    by (simp add: buffer_def)
  have raw: "cellRaw ([228, 12, 0, 0] @ replicate 28 0) 1 = 3300"
    "cellRaw ([228, 12, 0, 0] @ replicate 28 0) 2 = 0"
    by (simp_all add: cellRaw_def)
  from cell_voltage_map [OF l] obtain b where b: "parseBatteryInfo ?s = Inr b"
    and zero: "BatteryPack b 0 = None"
    and dm: "dom (BatteryPack b) \<subseteq> {1..16}"
    and val: "\<forall>k v. BatteryPack b k = Some v \<longrightarrow>
       v = of_int (cellRaw (take 32 (drop 16 (elems ?s))) k) / 1000"
    and non: "\<forall>k. BatteryPack b k = None \<longleftrightarrow>
       \<not> (1 \<le> k \<and> k \<le> 16) \<or> cellRaw (take 32 (drop 16 (elems ?s))) k = 0"
    by blast
  have two: "BatteryPack b 2 = None" and far: "BatteryPack b 17 = None"
    using non raw by (simp_all only: blk) simp_all
  have "BatteryPack b 1 \<noteq> None"
    using non raw by (simp only: blk) simp
  then obtain v where v: "BatteryPack b 1 = Some v"
    by blast
  from val [rule_format, OF v] have "v = 3300 / 1000"
    by (simp only: blk raw of_int_numeral)
  with v have one: "BatteryPack b 1 = Some (3300 / 1000)"
    by simp
  from b zero one two far l show ?thesis
    by simp
qed

section \<open>The version decoder\<close>

lemma evenPositions_Nil: "evenPositions [] = []"
  by (simp add: evenPositions_def)

lemma evenPositions_single: "evenPositions [x] = [x]"
  by (simp add: evenPositions_def)

lemma evenPositions_Cons2: "evenPositions (x # y # zs) = x # evenPositions zs"
proof -
  have upt: "[0..<Suc (Suc (length zs))] = 0 # Suc 0 # map (\<lambda>i. Suc (Suc i)) [0..<length zs]"
    by (simp add: upt_conv_Cons map_Suc_upt [symmetric] del: upt_Suc)
  have "filter even [0..<Suc (Suc (length zs))]
      = 0 # map (\<lambda>i. Suc (Suc i)) (filter even [0..<length zs])"
    by (simp only: upt) (simp add: filter_map comp_def)
  then show ?thesis
    by (simp add: evenPositions_def comp_def)
qed

lemma evenPositions_drop:
  assumes "i < length xs"
  shows "evenPositions (drop i xs) = xs ! i # evenPositions (drop (i + 2) xs)"
proof (cases "i + 1 < length xs")
  case True
  then have "drop i xs = xs ! i # xs ! (i + 1) # drop (i + 2) xs"
    using assms by (simp add: Cons_nth_drop_Suc)
  then show ?thesis
    by (simp only: evenPositions_Cons2)
next
  case False
  with assms have "drop i xs = [xs ! i]" "drop (i + 2) xs = []"
    using Cons_nth_drop_Suc [of i xs] by simp_all
  then show ?thesis
    by (simp only: evenPositions_single evenPositions_Nil)
qed

lemma hardwareLoop_eq:
  "hardwareLoop start i hw =
     Inr (hw @ map (\<lambda>b. char_of (unat b))
                 (filter printable (evenPositions (drop i (elems start)))))"
proof (induction start i hw rule: hardwareLoop.induct)
  case (1 start i hw)
  show ?case
  proof (cases "i < len start")
    case False
    then show ?thesis
      by (subst hardwareLoop.simps) (simp add: len_def evenPositions_Nil)
  next
    case True
    then have idx: "index start i = Inr (elems start ! i)"
      by (simp add: index_def)
    have ev: "evenPositions (drop i (elems start))
        = elems start ! i # evenPositions (drop (i + 2) (elems start))"
      using True by (intro evenPositions_drop) (simp add: len_def)
    let ?ver = "elems start ! i"
    let ?hw' = "if ?ver \<ge> 32 \<and> ?ver \<le> 126 then hw @ [char_of (unat ?ver)] else hw"
    have "hardwareLoop start i hw = hardwareLoop start (i + 2) ?hw'"
      using True idx by (subst hardwareLoop.simps) simp
    also have "\<dots> = Inr (?hw' @ map (\<lambda>b. char_of (unat b))
                 (filter printable (evenPositions (drop (i + 2) (elems start)))))"
      by (rule "1.IH" [OF True idx])
    also have "\<dots> = Inr (hw @ map (\<lambda>b. char_of (unat b))
                 (filter printable (evenPositions (drop i (elems start)))))"
      by (simp only: ev) (simp add: printable_def)
    finally show ?thesis .
  qed
qed

lemma parseVersion_Inr:
  assumes "parseVersion s = Inr (fw, date, hw)"
  shows "18 \<le> len s \<and>
    hw = map (\<lambda>b. char_of (unat b)) (filter printable (evenPositions (drop 8 (elems s))))"
  using assms unfolding parseVersion_def Let_def
  apply (elim bind_resultE)
  apply (clarsimp simp: slice_from_def index_eq_Inr hardwareLoop_eq len_def split: if_splits)
  apply arith
  done

lemma parseVersion_total:
  assumes "18 \<le> len s"
  shows "\<exists>fw date. parseVersion s =
    Inr (fw, date, map (\<lambda>b. char_of (unat b))
                     (filter printable (evenPositions (drop 8 (elems s)))))"
  using assms unfolding parseVersion_def Let_def
  by (simp add: slice_from_def slice_expr_def index_def hardwareLoop_eq len_def cap_def) arith

text \<open>
  Claim C8. For every version-response buffer, the hardware-version string consists of
  exactly the bytes at even positions of the block that starts at offset 8 whose values are
  printable (0x20 to 0x7E), in order, each as the character with that code; the others are
  dropped and nothing is put in their place. A buffer of at least 18 bytes is decoded;
  a shorter one is not (the date fields are indexed first).
\<close>

theorem hardware_version_printable:
  "(parseVersion s = Inr (fw, date, hw) \<longrightarrow>
      hw = map (\<lambda>b. char_of (unat b)) (filter printable (evenPositions (drop 8 (elems s))))) \<and>
   (18 \<le> len s \<longrightarrow>
      (\<exists>fw date. parseVersion s =
         Inr (fw, date, map (\<lambda>b. char_of (unat b))
                          (filter printable (evenPositions (drop 8 (elems s)))))))"
  using parseVersion_Inr [of s fw date hw] parseVersion_total [of s] by blast

text \<open>
  A block with the bytes 0x1F and 0x7F at even positions and printable bytes at odd ones.
\<close>

theorem hardware_version_printable_witness:
  "18 \<le> len (buffer (replicate 8 0 @ [65, 1, 31, 66, 126, 0, 127, 0, 32, 0])) \<and>
   map_sum id (\<lambda>r. snd (snd r))
     (parseVersion (buffer (replicate 8 0 @ [65, 1, 31, 66, 126, 0, 127, 0, 32, 0])))
   = Inr ''A~ ''"
proof -
  let ?s = "buffer (replicate 8 0 @ [65, 1, 31, 66, 126, 0, 127, 0, 32, 0])"
  have l: "18 \<le> len ?s"
    by (simp add: len_def buffer_def)
  have d: "drop 8 (elems ?s) = [65, 1, 31, 66, 126, 0, 127, 0, 32, 0]"
    by (simp add: buffer_def)
  have c: "char_of (65 :: nat) = CHR ''A''" "char_of (126 :: nat) = CHR ''~''"
    "char_of (32 :: nat) = CHR '' ''"
    by code_simp+
  have hw: "map (\<lambda>b. char_of (unat b)) (filter printable (evenPositions (drop 8 (elems ?s))))
      = ''A~ ''"
    by (simp only: d evenPositions_Cons2 evenPositions_Nil) (simp add: printable_def c)
  from hardware_version_printable [of ?s "[]" "[]" "[]", THEN conjunct2, rule_format, OF l]
  obtain fw date where "parseVersion ?s = Inr (fw, date, ''A~ '')"
    unfolding hw by blast
  with l show ?thesis
    by simp
qed

section \<open>Buffers that are too short\<close>

text \<open>
  Claim C1, as the decoder has it. The decoder has no error value to return: a buffer that
  is too short stops it with a run-time panic, and no record, partial or whole, comes back.
  It is too short when its capacity is below 104 or its length is below 69 (byte 68 is
  indexed; every other access is a slice expression, bounded by the capacity). In
  particular every buffer of length below 104 without spare capacity panics. In every
  other case a record is returned.
\<close>

theorem short_buffer_panics:
  "(cap s < 104 \<or> len s < 69 \<longrightarrow> parseBatteryInfo s = Inl Panic) \<and>
   (length bs < 104 \<longrightarrow> parseBatteryInfo (buffer bs) = Inl Panic) \<and>
   ((\<exists>b. parseBatteryInfo s = Inr b) \<longleftrightarrow> 104 \<le> cap s \<and> 69 \<le> len s)"
proof -
  have "parseBatteryInfo s = Inl Panic" if "cap s < 104 \<or> len s < 69"
    using that by (rule parse_Panic)
  moreover have "parseBatteryInfo (buffer bs) = Inl Panic" if "length bs < 104"
  proof -
    from that have "cap (buffer bs) < 104"
      by (simp add: cap_def buffer_def)
    then show ?thesis
      by (intro parse_Panic) simp
  qed
  moreover have "104 \<le> cap s \<and> 69 \<le> len s" if "\<exists>b. parseBatteryInfo s = Inr b"
  proof -
    from that obtain b where "parseBatteryInfo s = Inr b" ..
    from parse_fields [OF this] show ?thesis
      by simp
  qed
  moreover have "\<exists>b. parseBatteryInfo s = Inr b" if "104 \<le> cap s \<and> 69 \<le> len s"
    using that by (intro parse_total) simp_all
  ultimately show ?thesis
    by blast
qed

text \<open>A buffer of 103 bytes, and one of 104.\<close>

theorem short_buffer_panics_witness:
  "cap (buffer (replicate 103 0)) < 104 \<and>
   parseBatteryInfo (buffer (replicate 103 0)) = Inl Panic \<and>
   length (replicate 103 (0 :: byte)) < 104 \<and>
   104 \<le> cap (buffer (replicate 104 0)) \<and> 69 \<le> len (buffer (replicate 104 0)) \<and>
   (\<exists>b. parseBatteryInfo (buffer (replicate 104 0)) = Inr b)"
  using short_buffer_panics [of "buffer (replicate 103 0)" "replicate 103 0"]
    short_buffer_panics [of "buffer (replicate 104 0)" "replicate 103 0"]
  by (simp add: cap_def len_def buffer_def)

text \<open>
  Claim C1 as stated fails for a slice shorter than 104 bytes whose backing array is long
  enough: with length 100 and capacity 104 a record is returned, and its last counter is
  read from the four bytes beyond the length.
\<close>

theorem short_buffer_with_capacity_decodes:
  "len \<lparr>elems = replicate 100 0, spare = [1, 2, 3, 4]\<rparr> < 104 \<and>
   map_sum id DischargesAHCount
     (parseBatteryInfo \<lparr>elems = replicate 100 0, spare = [1, 2, 3, 4]\<rparr>) = Inr 16909060"
proof -
  let ?s = "\<lparr>elems = replicate 100 0, spare = [1, 2, 3, 4]\<rparr>"
  have "104 \<le> cap ?s" "69 \<le> len ?s"
    by (simp_all add: cap_def len_def)
  then obtain b where b: "parseBatteryInfo ?s = Inr b"
    using parse_total by blast
  have "bytes ?s 100 104 = [1, 2, 3, 4]"
    by (simp add: bytes_def)
  moreover have "sint (binaryToInt [1, 2, 3, 4]) = 16909060"
    by (simp add: sint_binaryToInt bigEndianValue_def)
  ultimately have "DischargesAHCount b = 16909060"
    using parse_fields [OF b] by simp
  with b show ?thesis
    by (simp add: len_def)
qed

section \<open>What the sequencer does with a notification\<close>

lemma hexDecodeString_commands:
  "hexDecodeString ''000004011655AA1A'' = Some [0, 0, 4, 1, 22, 85, 170, 26]"
  "hexDecodeString ''000004011355AA17'' = Some [0, 0, 4, 1, 19, 85, 170, 23]"
  "hexDecodeString ''000004011055AA14'' = Some [0, 0, 4, 1, 16, 85, 170, 20]"
  by code_simp+

text \<open>
  Claim C7. The claim has the payload decoded by the decoder of the command in flight:
  \<open>parseBatteryInfo\<close> for \<open>GET_BATTERY_INFO\<close>, \<open>parseVersion\<close> for \<open>GET_VERSION\<close>, the
  serial-number handling for \<open>SERIAL_NUMBER\<close>. The handler only has the first case: a
  payload that arrives during the other two commands is dropped and no decoder is called.
\<close>

theorem handler_decodes_battery_info_only:
  "notificationHandler ''GET_VERSION'' data = None \<and>
   notificationHandler ''SERIAL_NUMBER'' data = None \<and>
   notificationHandler ''GET_BATTERY_INFO'' data = Some (parseBatteryInfo data)"
  by (simp add: notificationHandler_def)

text \<open>
  A run in which no call fails, in the order of the table: each command is subscribed,
  written, waited for and unsubscribed.
\<close>

lemma readBMS_all_succeed:
  assumes "\<And>n. \<not> subscribeFails t n" "\<And>n. \<not> writeFails t n"
  shows "readBMS t pqCommands =
    [Subscribe ''GET_VERSION'', WriteWithoutResponse [0, 0, 4, 1, 22, 85, 170, 26],
       Sleep, Unsubscribe,
     Subscribe ''GET_BATTERY_INFO'', WriteWithoutResponse [0, 0, 4, 1, 19, 85, 170, 23],
       Sleep, Unsubscribe,
     Subscribe ''SERIAL_NUMBER'', WriteWithoutResponse [0, 0, 4, 1, 16, 85, 170, 20],
       Sleep, Unsubscribe]"
  using assms
  by (simp add: readBMS_def pqCommands_def pollCommand_def hexDecodeString_commands
      del: hexDecodeString.simps)

text \<open>
  An iteration whose write fails ends after the write: it does not unsubscribe, and the
  next iteration follows at once.
\<close>

lemma pollCommand_write_failure:
  assumes "hexDecodeString cmd = Some commandBytes"
    and "\<not> subscribeFails t name" and "writeFails t name"
  shows "pollCommand t (name, cmd) = [Subscribe name, WriteWithoutResponse commandBytes]"
  using assms by (simp add: pollCommand_def)

lemma readBMS_append:
  "readBMS t (before @ entry # rest) = readBMS t before @ pollCommand t entry @ readBMS t rest"
  by (simp add: readBMS_def)

end
